theory Spec2Isabelle
  imports Complex_Main
begin

section \<open>Qibla bearing (\<^verbatim>\<open>QiblaSection\<close> in \<^verbatim>\<open>src/App.tsx\<close>)\<close>

text \<open>
  The component receives \<^verbatim>\<open>location\<close>, which is either \<^verbatim>\<open>null\<close> or an object with
  the numeric fields \<^verbatim>\<open>latitude\<close> and \<^verbatim>\<open>longitude\<close> (degrees). JavaScript numbers are
  idealised as real numbers throughout: \<^verbatim>\<open>Math.sin\<close>, \<^verbatim>\<open>Math.cos\<close>, \<^verbatim>\<open>Math.tan\<close> and
  \<^verbatim>\<open>Math.PI\<close> are the real functions and constant, without rounding.
\<close>

record location =
  latitude :: real
  longitude :: real

text \<open>
  \<^verbatim>\<open>Math.atan2(y, x)\<close> as ECMAScript specifies it on finite numbers: the angle of the
  point \<open>(x, y)\<close> in \<open>(-\<pi>, \<pi>]\<close>, and \<open>0\<close> at the origin. (The signs of zeros, which
  the real numbers do not have, are not modelled.)
\<close>

definition Math_atan2 :: "real \<Rightarrow> real \<Rightarrow> real" where
  "Math_atan2 y x =
     (if 0 < x then arctan (y / x)
      else if x < 0 then (if 0 \<le> y then arctan (y / x) + pi else arctan (y / x) - pi)
      else if 0 < y then pi / 2
      else if y < 0 then - (pi / 2)
      else 0)"

text \<open>
  The remainder operator \<^verbatim>\<open>n % d\<close> on numbers: the quotient is truncated towards zero,
  so the result has the sign of the dividend. (For \<open>d = 0\<close> JavaScript yields NaN; the only
  divisor in this program is the literal 360.)
\<close>

definition js_rem :: "real \<Rightarrow> real \<Rightarrow> real" where
  "js_rem n d = n - d * of_int (if 0 \<le> n / d then \<lfloor>n / d\<rfloor> else \<lceil>n / d\<rceil>)"

text \<open>
  \<^verbatim>\<open>
  const qiblaAngle = useMemo(() => {
    if (!location) return 0;
    const phiK = 21.4225 * Math.PI / 180;
    const lambdaK = 39.8262 * Math.PI / 180;
    const phi = location.latitude * Math.PI / 180;
    const lambda = location.longitude * Math.PI / 180;
    const y = Math.sin(lambdaK - lambda);
    const x = Math.cos(phi) * Math.tan(phiK) - Math.sin(phi) * Math.cos(lambdaK - lambda);
    let qibla = Math.atan2(y, x) * 180 / Math.PI;
    return (qibla + 360) % 360;
  }, [location]);
  \<close>
\<close>

definition qiblaAngle :: "location option \<Rightarrow> real" where
  "qiblaAngle loc =
     (case loc of
        None \<Rightarrow> 0
      | Some l \<Rightarrow>
          (let phiK = 21.4225 * pi / 180;
               lambdaK = 39.8262 * pi / 180;
               phi = latitude l * pi / 180;
               lambda = longitude l * pi / 180;
               y = sin (lambdaK - lambda);
               x = cos phi * tan phiK - sin phi * cos (lambdaK - lambda);
               qibla = Math_atan2 y x * 180 / pi
           in js_rem (qibla + 360) 360))"

text \<open>
  The needle of the compass is rotated by \<^verbatim>\<open>qiblaAngle - heading\<close>
  (\<^verbatim>\<open>animate={{ rotate: qiblaAngle - heading }}\<close>), whatever \<^verbatim>\<open>location\<close> is: the
  component has no early return.
\<close>

definition needle_rotation :: "location option \<Rightarrow> real \<Rightarrow> real" where
  "needle_rotation loc heading = qiblaAngle loc - heading"

subsection \<open>The formula of the specification\<close>

text \<open>
  The specification's words: with \<open>\<phi>\<close>, \<open>\<lambda>\<close> the observer's latitude and longitude in
  radians, \<open>\<phi>\<^sub>k\<close>, \<open>\<lambda>\<^sub>k\<close> the Kaaba's and \<open>\<Delta>\<lambda> = \<lambda>\<^sub>k - \<lambda>\<close>,
  \<open>y = sin \<Delta>\<lambda>\<close>, \<open>x = cos \<phi> \<sdot> tan \<phi>\<^sub>k - sin \<phi> \<sdot> cos \<Delta>\<lambda>\<close>, and the bearing is
  \<open>atan2 (y, x)\<close> in degrees, normalised into \<open>[0, 360)\<close>.
\<close>

definition radians :: "real \<Rightarrow> real" where
  "radians d = d * pi / 180"

definition degrees :: "real \<Rightarrow> real" where
  "degrees r = r * 180 / pi"

definition normalize360 :: "real \<Rightarrow> real" where
  "normalize360 d = d - 360 * of_int \<lfloor>d / 360\<rfloor>"

definition bearing_spec :: "real \<Rightarrow> real \<Rightarrow> real" where
  "bearing_spec lat lon =
     (let dl = radians 39.8262 - radians lon;
          y = sin dl;
          x = cos (radians lat) * tan (radians 21.4225) - sin (radians lat) * cos dl
      in normalize360 (degrees (Math_atan2 y x)))"

section \<open>The adhan trigger (an effect of \<^verbatim>\<open>App\<close> in \<^verbatim>\<open>src/App.tsx\<close>)\<close>

text \<open>
  \<^verbatim>\<open>getPrayerTimes\<close> (\<^verbatim>\<open>src/lib/adhan.ts\<close>) builds its result with the third-party
  package \<^verbatim>\<open>adhan\<close> (\<^verbatim>\<open>Coordinates\<close>, \<^verbatim>\<open>CalculationMethod\<close>, \<^verbatim>\<open>PrayerTimes\<close>) and copies
  the six instants out of it. The code of that package is not part of the repository, so
  the schedule enters this development as an input of the trigger.

  The effect reads a \<^verbatim>\<open>Date\<close> only through \<^verbatim>\<open>getHours()\<close>, \<^verbatim>\<open>getMinutes()\<close> and
  \<^verbatim>\<open>toDateString()\<close>, all in the device's time zone; a \<^verbatim>\<open>Date\<close> is modelled by these
  three readings.
\<close>

record date =
  getHours :: nat
  getMinutes :: nat
  toDateString :: string

text \<open>
  The object returned by \<^verbatim>\<open>getPrayerTimes\<close>, restricted to the six instants. The effect
  guards each read with \<^verbatim>\<open>if (pTime)\<close>, so a field may be absent. An invalid
  \<^verbatim>\<open>Date\<close> reads NaN, which \<^verbatim>\<open>===\<close> never finds equal to \<^verbatim>\<open>currentMinutes\<close>: for the
  effect it is an absent field too. (The fields \<^verbatim>\<open>current\<close>, \<^verbatim>\<open>next\<close> and
  \<^verbatim>\<open>timeForNext\<close> are never read by the effect.)
\<close>

record prayer_times =
  fajr :: "date option"
  sunrise :: "date option"
  dhuhr :: "date option"
  asr :: "date option"
  maghrib :: "date option"
  isha :: "date option"

text \<open>\<^verbatim>\<open>prayerTimes[p]\<close>: the property named \<open>p\<close>, \<^verbatim>\<open>undefined\<close> for any other name.\<close>

definition prayer_field :: "prayer_times \<Rightarrow> string \<Rightarrow> date option" where
  "prayer_field pt p =
     (if p = ''fajr'' then fajr pt
      else if p = ''sunrise'' then sunrise pt
      else if p = ''dhuhr'' then dhuhr pt
      else if p = ''asr'' then asr pt
      else if p = ''maghrib'' then maghrib pt
      else if p = ''isha'' then isha pt
      else None)"

text \<open>\<^verbatim>\<open>const prayers = ['fajr', 'dhuhr', 'asr', 'maghrib', 'isha'];\<close>\<close>

definition prayers :: "string list" where
  "prayers = [''fajr'', ''dhuhr'', ''asr'', ''maghrib'', ''isha'']"

text \<open>
  The state the effect reads and writes is \<^verbatim>\<open>lastAdhanPlayed\<close>
  (\<^verbatim>\<open>useState<string | null>(null)\<close>). The calls of \<^verbatim>\<open>playAdhan()\<close> are recorded in
  \<open>played\<close>, each with the date string of \<^verbatim>\<open>now\<close> and the prayer id of the loop
  iteration that made the call; the program itself keeps no such list.
\<close>

record app_state =
  lastAdhanPlayed :: "string option"
  played :: "(string \<times> string) list"

definition initial_state :: app_state where
  "initial_state = \<lparr>lastAdhanPlayed = None, played = []\<rparr>"

text \<open>
  \<^verbatim>\<open>
  for (const p of prayers) {
    const pTime = prayerTimes[p as keyof typeof prayerTimes] as Date;
    if (pTime) {
      const pMinutes = pTime.getHours() * 60 + pTime.getMinutes();
      const todayKey = `${now.toDateString()}-${p}`;
      if (currentMinutes === pMinutes && lastAdhanPlayed !== todayKey) {
        playAdhan();
        setLastAdhanPlayed(todayKey);
        break;
      }
    }
  }
  \<close>
  The loop returns the date string and prayer id of the iteration that plays, if any.
\<close>

fun adhan_loop ::
  "date \<Rightarrow> prayer_times \<Rightarrow> string option \<Rightarrow> string list \<Rightarrow> (string \<times> string) option" where
  "adhan_loop now pt lastPlayed [] = None"
| "adhan_loop now pt lastPlayed (p # ps) =
     (case prayer_field pt p of
        None \<Rightarrow> adhan_loop now pt lastPlayed ps
      | Some pTime \<Rightarrow>
          (let currentMinutes = getHours now * 60 + getMinutes now;
               pMinutes = getHours pTime * 60 + getMinutes pTime;
               todayKey = toDateString now @ ''-'' @ p
           in if currentMinutes = pMinutes \<and> lastPlayed \<noteq> Some todayKey
              then Some (toDateString now, p)
              else adhan_loop now pt lastPlayed ps))"

text \<open>
  One execution of the effect. Its inputs besides the state are the values of
  \<^verbatim>\<open>adhanEnabled\<close> and \<^verbatim>\<open>prayerTimes\<close> in the render it belongs to and the clock reading
  \<^verbatim>\<open>new Date()\<close> it makes.
  \<^verbatim>\<open>
  if (!adhanEnabled || !prayerTimes) return;
  const now = new Date();
  const currentMinutes = now.getHours() * 60 + now.getMinutes();
  \<close>
\<close>

record tick =
  adhanEnabled :: bool
  prayerTimes :: "prayer_times option"
  now :: date

definition adhan_effect :: "app_state \<Rightarrow> tick \<Rightarrow> app_state" where
  "adhan_effect s t =
     (if \<not> adhanEnabled t then s
      else case prayerTimes t of
        None \<Rightarrow> s
      | Some pt \<Rightarrow>
          (case adhan_loop (now t) pt (lastAdhanPlayed s) prayers of
             None \<Rightarrow> s
           | Some (d, p) \<Rightarrow>
               s\<lparr>lastAdhanPlayed := Some (d @ ''-'' @ p), played := played s @ [(d, p)]\<rparr>))"

text \<open>
  A process lifetime is a sequence of executions of the effect, each seeing the state the
  previous one left. The effect's dependencies are
  \<^verbatim>\<open>[currentTime, adhanEnabled, prayerTimes, lastAdhanPlayed]\<close>: it is executed again
  after every tick of the clock (once per second) and after every change of
  \<^verbatim>\<open>lastAdhanPlayed\<close>, that is, after every call of \<^verbatim>\<open>playAdhan()\<close>.
\<close>

fun run :: "app_state \<Rightarrow> tick list \<Rightarrow> app_state" where
  "run s [] = s"
| "run s (t # ts) = run (adhan_effect s t) ts"

subsection \<open>Steady runs\<close>

text \<open>
  Conditions under which the single remembered key is enough for a pair of date and
  prayer to be played at most once: the
  obligatory prayers of a schedule fall on pairwise different minutes of the day; the
  executions of one calendar date follow each other without another date in between,
  their clock readings do not go back, and those that have a schedule agree on the
  minutes of the obligatory prayers.
\<close>

definition minute_of_day :: "date \<Rightarrow> nat" where
  "minute_of_day d = getHours d * 60 + getMinutes d"

definition obligatory_minute :: "prayer_times option \<Rightarrow> string \<Rightarrow> nat option" where
  "obligatory_minute pto p =
     (case pto of
        None \<Rightarrow> None
      | Some pt \<Rightarrow>
          if p \<in> set prayers then map_option minute_of_day (prayer_field pt p) else None)"

definition distinct_minutes :: "prayer_times option \<Rightarrow> bool" where
  "distinct_minutes pto =
     (\<forall>p \<in> set prayers. \<forall>q \<in> set prayers.
        obligatory_minute pto p \<noteq> None \<and> obligatory_minute pto p = obligatory_minute pto q
          \<longrightarrow> p = q)"

definition same_schedule :: "tick \<Rightarrow> tick \<Rightarrow> bool" where
  "same_schedule t u =
     (prayerTimes t = None \<or> prayerTimes u = None
      \<or> (\<forall>p \<in> set prayers.
            obligatory_minute (prayerTimes u) p = obligatory_minute (prayerTimes t) p))"

fun steady :: "tick list \<Rightarrow> bool" where
  "steady [] = True"
| "steady (t # ts) =
     (distinct_minutes (prayerTimes t)
      \<and> (\<forall>u \<in> set ts. toDateString (now u) = toDateString (now t) \<longrightarrow>
             minute_of_day (now t) \<le> minute_of_day (now u) \<and> same_schedule t u)
      \<and> (case ts of [] \<Rightarrow> True
          | u # _ \<Rightarrow> toDateString (now u) = toDateString (now t)
                     \<or> toDateString (now t) \<notin> set (map (\<lambda>u. toDateString (now u)) ts))
      \<and> steady ts)"

text \<open>
  The invariant of a steady run, for a state \<open>s\<close> and the executions \<open>ts\<close> still to come:
  a pair already played belongs to the date of the next execution or to a date that does
  not come again, its minute is not in the future, and when its minute is the current one
  it is the pair \<^verbatim>\<open>lastAdhanPlayed\<close> remembers.
\<close>

definition settled_pair :: "app_state \<Rightarrow> tick list \<Rightarrow> string \<Rightarrow> string \<Rightarrow> bool" where
  "settled_pair s ts d p =
     ((case ts of [] \<Rightarrow> True
       | u # _ \<Rightarrow> toDateString (now u) = d \<or> d \<notin> set (map (\<lambda>u. toDateString (now u)) ts))
      \<and> (\<forall>u \<in> set ts. toDateString (now u) = d \<longrightarrow>
            (\<forall>m. obligatory_minute (prayerTimes u) p = Some m \<longrightarrow>
                 m \<le> minute_of_day (now u)
                 \<and> (m = minute_of_day (now u) \<longrightarrow> lastAdhanPlayed s = Some (d @ ''-'' @ p)))))"

definition settled :: "app_state \<Rightarrow> tick list \<Rightarrow> bool" where
  "settled s ts =
     (distinct (played s) \<and> (\<forall>x \<in> set (played s). settled_pair s ts (fst x) (snd x)))"

subsection \<open>Two concrete days\<close>

text \<open>
  A device on Cairo time on Monday 2 November 2026. \<open>home_schedule\<close> is a schedule for
  Cairo; \<open>away_schedule\<close> is a schedule for a manual location seven time zones to the west,
  whose instants the device reads in its own time zone (isha falls after the device's
  midnight). \<open>next_schedule\<close> is the Cairo schedule of the following day.
\<close>

definition at_time :: "string \<Rightarrow> nat \<Rightarrow> nat \<Rightarrow> date" where
  "at_time d h m = \<lparr>getHours = h, getMinutes = m, toDateString = d\<rparr>"

definition monday :: string where
  "monday = ''Mon Nov 02 2026''"

definition tuesday :: string where
  "tuesday = ''Tue Nov 03 2026''"

definition home_schedule :: prayer_times where
  "home_schedule =
     \<lparr>fajr = Some (at_time monday 4 43), sunrise = Some (at_time monday 6 8),
      dhuhr = Some (at_time monday 11 39), asr = Some (at_time monday 14 43),
      maghrib = Some (at_time monday 17 9), isha = Some (at_time monday 18 28)\<rparr>"

definition away_schedule :: prayer_times where
  "away_schedule =
     \<lparr>fajr = Some (at_time monday 12 5), sunrise = Some (at_time monday 13 28),
      dhuhr = Some (at_time monday 18 40), asr = Some (at_time monday 21 24),
      maghrib = Some (at_time monday 23 51), isha = Some (at_time tuesday 1 14)\<rparr>"

definition next_schedule :: prayer_times where
  "next_schedule =
     \<lparr>fajr = Some (at_time tuesday 4 44), sunrise = Some (at_time tuesday 6 9),
      dhuhr = Some (at_time tuesday 11 39), asr = Some (at_time tuesday 14 42),
      maghrib = Some (at_time tuesday 17 8), isha = Some (at_time tuesday 18 27)\<rparr>"

definition tick_at :: "prayer_times \<Rightarrow> string \<Rightarrow> nat \<Rightarrow> nat \<Rightarrow> tick" where
  "tick_at pt d h m = \<lparr>adhanEnabled = True, prayerTimes = Some pt, now = at_time d h m\<rparr>"

text \<open>
  \<open>twilight_schedule\<close> is a schedule of Sunday 21 June 2026 whose fajr and isha fall on
  the same minute of the day, isha being 24 hours after fajr.
\<close>

definition midsummer :: string where
  "midsummer = ''Sun Jun 21 2026''"

definition twilight_schedule :: prayer_times where
  "twilight_schedule =
     \<lparr>fajr = Some (at_time midsummer 1 12), sunrise = Some (at_time midsummer 4 43),
      dhuhr = Some (at_time midsummer 13 2), asr = Some (at_time midsummer 17 25),
      maghrib = Some (at_time midsummer 21 22),
      isha = Some (at_time ''Mon Jun 22 2026'' 1 12)\<rparr>"

text \<open>
  In \<open>replay_ticks\<close> the user switches to the manual location shortly after dhuhr. In
  \<open>rerun_ticks\<close> nothing changes: the effect is executed four times within the minute
  01:12, the first time by the clock and then after each change of \<^verbatim>\<open>lastAdhanPlayed\<close>.
  In \<open>steady_ticks\<close> the location stays, the effect runs twice within the minute of fajr,
  and the run continues into the next day.
\<close>

definition rerun_ticks :: "tick list" where
  "rerun_ticks =
     [tick_at twilight_schedule midsummer 1 12, tick_at twilight_schedule midsummer 1 12,
      tick_at twilight_schedule midsummer 1 12, tick_at twilight_schedule midsummer 1 12]"

definition replay_ticks :: "tick list" where
  "replay_ticks =
     [tick_at home_schedule monday 4 43, tick_at home_schedule monday 11 39,
      tick_at away_schedule monday 12 5]"

definition steady_ticks :: "tick list" where
  "steady_ticks =
     [tick_at home_schedule monday 4 43, tick_at home_schedule monday 4 43,
      tick_at home_schedule monday 11 39, tick_at next_schedule tuesday 4 44]"

section \<open>Properties of the Qibla bearing\<close>

subsection \<open>The model of \<^verbatim>\<open>Math.atan2\<close>\<close>

lemma Math_atan2_bounds: "- pi < Math_atan2 y x \<and> Math_atan2 y x \<le> pi"
proof -
  have a: "- (pi / 2) < arctan (y / x)" "arctan (y / x) < pi / 2"
    by (rule arctan_lbound, rule arctan_ubound)
  have neg: "arctan (y / x) \<le> 0" if "x < 0" "0 \<le> y"
  proof -
    from that have "y / x \<le> 0" by (simp add: divide_nonneg_neg)
    then show ?thesis by simp
  qed
  have pos: "0 < arctan (y / x)" if "x < 0" "y < 0"
  proof -
    from that have "0 < y / x" by (simp add: divide_neg_neg)
    then show ?thesis by simp
  qed
  have p: "0 < pi" by (rule pi_gt_zero)
  show ?thesis
    unfolding Math_atan2_def using a neg pos p by (auto simp: not_less)
qed

text \<open>
  Away from the origin the model is the mathematical two-argument arctangent: the angle
  whose cosine and sine are the normalised coordinates.
\<close>

lemma Math_atan2_polar:
  assumes "x \<noteq> 0 \<or> y \<noteq> 0"
  shows "cos (Math_atan2 y x) = x / sqrt (x\<^sup>2 + y\<^sup>2)
       \<and> sin (Math_atan2 y x) = y / sqrt (x\<^sup>2 + y\<^sup>2)"
proof -
  have r: "sqrt (1 + (y / x)\<^sup>2) = sqrt (x\<^sup>2 + y\<^sup>2) / \<bar>x\<bar>" if "x \<noteq> 0"
  proof -
    have "1 + (y / x)\<^sup>2 = (x\<^sup>2 + y\<^sup>2) / x\<^sup>2"
      using that by (simp add: field_simps power2_eq_square)
    then show ?thesis by (simp add: real_sqrt_divide)
  qed
  consider "0 < x" | "x < 0" "0 \<le> y" | "x < 0" "y < 0" | "x = 0" "0 < y" | "x = 0" "y < 0"
    using assms by linarith
  then show ?thesis
  proof cases
    case 1
    then show ?thesis by (simp add: Math_atan2_def cos_arctan sin_arctan r)
  next
    case 2
    then show ?thesis by (simp add: Math_atan2_def cos_arctan sin_arctan r)
  next
    case 3
    then show ?thesis by (simp add: Math_atan2_def cos_arctan sin_arctan r cos_diff sin_diff)
  next
    case 4
    then show ?thesis by (simp add: Math_atan2_def)
  next
    case 5
    then show ?thesis by (simp add: Math_atan2_def)
  qed
qed

lemma Math_atan2_0_neg: "x < 0 \<Longrightarrow> Math_atan2 0 x = pi"
  by (simp add: Math_atan2_def)

lemma Math_atan2_0_nonneg: "0 \<le> x \<Longrightarrow> Math_atan2 0 x = 0"
  by (simp add: Math_atan2_def)

lemma degrees_atan2_bounds:
  "- 180 < Math_atan2 y x * 180 / pi \<and> Math_atan2 y x * 180 / pi \<le> 180"
proof -
  have p: "0 < pi" by (rule pi_gt_zero)
  from Math_atan2_bounds [of y x] have "- pi < Math_atan2 y x" "Math_atan2 y x \<le> pi"
    by simp_all
  with p show ?thesis by (simp add: field_simps)
qed

subsection \<open>Normalisation\<close>

lemma normalize360_range: "0 \<le> normalize360 d \<and> normalize360 d < 360"
proof -
  have "of_int \<lfloor>d / 360\<rfloor> \<le> d / 360" "d / 360 < of_int \<lfloor>d / 360\<rfloor> + 1"
    by linarith+
  then show ?thesis unfolding normalize360_def by (simp add: field_simps)
qed

lemma normalize360_0: "normalize360 0 = 0"
  by (simp add: normalize360_def)

lemma normalize360_180: "normalize360 180 = 180"
proof -
  have "\<lfloor>(180::real) / 360\<rfloor> = 0" by simp
  then show ?thesis by (simp add: normalize360_def)
qed

text \<open>
  Adding 360 before \<^verbatim>\<open>% 360\<close> makes the dividend non-negative for every angle above
  \<open>-360\<close>, where the truncating remainder is the floor remainder.
\<close>

lemma js_rem_plus_360: "- 360 \<le> d \<Longrightarrow> js_rem (d + 360) 360 = normalize360 d"
proof -
  assume "- 360 \<le> d"
  then have nn: "0 \<le> (d + 360) / 360" by simp
  have e: "(d + 360) / 360 = d / 360 + 1" by (simp add: field_simps)
  have "\<lfloor>(d + 360) / 360\<rfloor> = \<lfloor>d / 360\<rfloor> + 1" unfolding e by simp
  with nn show ?thesis unfolding js_rem_def normalize360_def by (simp add: algebra_simps)
qed

lemma qiblaAngle_Some:
  "qiblaAngle (Some l) =
     normalize360 (Math_atan2 (sin (39.8262 * pi / 180 - longitude l * pi / 180))
        (cos (latitude l * pi / 180) * tan (21.4225 * pi / 180)
          - sin (latitude l * pi / 180) * cos (39.8262 * pi / 180 - longitude l * pi / 180))
        * 180 / pi)"
proof -
  have "- 360 \<le> Math_atan2 y x * 180 / pi" for y x
    using degrees_atan2_bounds [of y x] by linarith
  then show ?thesis
    unfolding qiblaAngle_def Let_def by (simp add: js_rem_plus_360)
qed

text \<open>
  C2. For every observer coordinate the value computed by \<^verbatim>\<open>qiblaAngle\<close> is the
  initial-bearing formula of the specification (\<open>y = sin \<Delta>\<lambda>\<close>,
  \<open>x = cos \<phi> \<sdot> tan \<phi>\<^sub>k - sin \<phi> \<sdot> cos \<Delta>\<lambda>\<close>, \<open>atan2 (y, x)\<close> in degrees normalised into
  \<open>[0, 360)\<close>), and it lies in \<open>[0, 360)\<close>. The statement needs no bound on the
  coordinates, so it covers latitudes in \<open>[-90, 90]\<close> and longitudes in \<open>[-180, 180]\<close>.
\<close>

theorem qiblaAngle_refines_bearing_spec:
  "qiblaAngle (Some l) = bearing_spec (latitude l) (longitude l)
     \<and> 0 \<le> qiblaAngle (Some l) \<and> qiblaAngle (Some l) < 360"
proof -
  have "qiblaAngle (Some l) = bearing_spec (latitude l) (longitude l)"
    unfolding qiblaAngle_Some bearing_spec_def radians_def degrees_def Let_def by simp
  moreover have "0 \<le> qiblaAngle (Some l)" "qiblaAngle (Some l) < 360"
    unfolding qiblaAngle_Some using normalize360_range by simp_all
  ultimately show ?thesis by simp
qed

subsection \<open>Observers on the meridian of the Kaaba\<close>

lemma cos_phiK_pos: "0 < cos (21.4225 * pi / 180)"
proof -
  have p: "0 < pi" by (rule pi_gt_zero)
  show ?thesis by (rule cos_gt_zero_pi) (use p in simp_all)
qed

lemma x_same_meridian_gen:
  "cos k \<noteq> 0 \<Longrightarrow> cos phi * tan k - sin phi * cos 0 = sin (k - phi) / cos (k::real)"
  by (simp add: tan_def sin_diff field_simps)

lemma deg_bounds:
  assumes "0 < d" "d < 180"
  shows "0 < d * pi / 180" "d * pi / 180 < pi"
proof -
  have p: "0 < pi" by (rule pi_gt_zero)
  show "0 < d * pi / 180" using assms(1) p by simp
  have "d * pi < 180 * pi" using assms(2) p by (rule mult_strict_right_mono)
  then show "d * pi / 180 < pi" by simp
qed

lemma neg_scale: "(a - b) * c / d = - ((b - a) * c / (d::real))"
proof -
  have "a - b = - (b - a)" by simp
  then show ?thesis by (simp only: mult_minus_left minus_divide_left)
qed

text \<open>
  On the Kaaba's meridian \<open>y = sin 0 = 0\<close> and \<open>x\<close> collapses to
  \<open>sin (\<phi>\<^sub>k - \<phi>) / cos \<phi>\<^sub>k\<close>, whose sign is that of \<open>\<phi>\<^sub>k - \<phi>\<close>.
\<close>

lemma qiblaAngle_same_meridian:
  assumes "longitude l = 39.8262"
  shows "qiblaAngle (Some l) =
     normalize360 (Math_atan2 0
        (sin ((21.4225 - latitude l) * pi / 180) / cos (21.4225 * pi / 180)) * 180 / pi)"
proof -
  define k :: real where "k = 21.4225 * pi / 180"
  define phi where "phi = latitude l * pi / 180"
  have d: "39.8262 * pi / 180 - longitude l * pi / 180 = 0" using assms by simp
  have c: "cos k \<noteq> 0" using cos_phiK_pos by (simp add: k_def)
  have e: "(21.4225 - latitude l) * pi / 180 = k - phi"
    by (simp add: k_def phi_def algebra_simps diff_divide_distrib)
  have "cos phi * tan k - sin phi * cos 0 = sin (k - phi) / cos k"
    using c by (rule x_same_meridian_gen)
  then show ?thesis
    unfolding qiblaAngle_Some d e by (simp add: k_def phi_def)
qed

lemma qibla_due_north:
  assumes lon: "longitude l = 39.8262" and lat: "21.4225 < latitude l" "latitude l \<le> 90"
  shows "qiblaAngle (Some l) = 180"
proof -
  let ?a = "(latitude l - 21.4225) * pi / 180"
  have "0 < ?a" "?a < pi" using lat by (intro deg_bounds; simp)+
  then have "0 < sin ?a" by (rule sin_gt_zero)
  moreover have "(21.4225 - latitude l) * pi / 180 = - ?a" by (rule neg_scale)
  ultimately have "sin ((21.4225 - latitude l) * pi / 180) < 0" by (simp del: minus_diff_eq)
  then have "sin ((21.4225 - latitude l) * pi / 180) / cos (21.4225 * pi / 180) < 0"
    using cos_phiK_pos by (rule divide_neg_pos)
  then show ?thesis
    unfolding qiblaAngle_same_meridian [OF lon] by (simp add: Math_atan2_0_neg normalize360_180)
qed

lemma qibla_due_south:
  assumes lon: "longitude l = 39.8262" and lat: "- 90 \<le> latitude l" "latitude l < 21.4225"
  shows "qiblaAngle (Some l) = 0"
proof -
  let ?a = "(21.4225 - latitude l) * pi / 180"
  have "0 < ?a" "?a < pi" using lat by (intro deg_bounds; simp)+
  then have "0 < sin ?a" by (rule sin_gt_zero)
  then have "0 \<le> sin ?a / cos (21.4225 * pi / 180)"
    using cos_phiK_pos by simp
  then show ?thesis
    unfolding qiblaAngle_same_meridian [OF lon] by (simp add: Math_atan2_0_nonneg normalize360_0)
qed

lemma qibla_coincident:
  assumes "longitude l = 39.8262" "latitude l = 21.4225"
  shows "qiblaAngle (Some l) = 0"
  unfolding qiblaAngle_same_meridian [OF assms(1)] assms(2)
  by (simp add: Math_atan2_0_nonneg normalize360_0)

text \<open>
  C8. An observer on the Kaaba's meridian (longitude 39.8262) with a latitude strictly
  greater than the Kaaba's, up to the pole, gets the bearing 180; one with a latitude
  strictly smaller, down to the other pole, gets the bearing 0.
\<close>

theorem qibla_meridian:
  assumes "longitude l = 39.8262"
  shows "(21.4225 < latitude l \<and> latitude l \<le> 90 \<longrightarrow> qiblaAngle (Some l) = 180)
       \<and> (- 90 \<le> latitude l \<and> latitude l < 21.4225 \<longrightarrow> qiblaAngle (Some l) = 0)"
  using assms qibla_due_north qibla_due_south by blast

theorem qibla_meridian_witness:
  "qiblaAngle (Some \<lparr>latitude = 90, longitude = 39.8262\<rparr>) = 180
   \<and> qiblaAngle (Some \<lparr>latitude = - 90, longitude = 39.8262\<rparr>) = 0"
  using qibla_meridian [of "\<lparr>latitude = 90, longitude = 39.8262\<rparr>"]
        qibla_meridian [of "\<lparr>latitude = - 90, longitude = 39.8262\<rparr>"]
  by simp

text \<open>
  C7. At the Kaaba's own coordinate (21.4225, 39.8262) both arguments of
  \<^verbatim>\<open>Math.atan2\<close> are zero, where it returns 0, and the computation returns the number 0:
  no operation is applied outside its domain (the divisor of \<^verbatim>\<open>%\<close> is 360 and the
  tangent is taken where the cosine is positive), so the result is a number.
\<close>

theorem qibla_at_kaaba:
  "qiblaAngle (Some \<lparr>latitude = 21.4225, longitude = 39.8262\<rparr>) = 0"
  by (rule qibla_coincident) simp_all

text \<open>
  C10. Without a location (\<^verbatim>\<open>location\<close> is \<^verbatim>\<open>null\<close>) the computation returns the
  bearing 0, which is also the genuine bearing of an observer due south of the Kaaba
  (here on the equator, at the Kaaba's longitude). No absence is surfaced: the compass is
  rendered with this value, the needle being rotated by \<open>0 - heading\<close> for every device
  heading, exactly as it is for that observer.
\<close>

theorem qibla_without_location:
  "qiblaAngle None = 0
   \<and> qiblaAngle (Some \<lparr>latitude = 0, longitude = 39.8262\<rparr>) = 0
   \<and> needle_rotation None h = 0 - h
   \<and> needle_rotation (Some \<lparr>latitude = 0, longitude = 39.8262\<rparr>) h = 0 - h"
proof -
  have "qiblaAngle (Some \<lparr>latitude = 0, longitude = 39.8262\<rparr>) = 0"
    by (rule qibla_due_south) simp_all
  moreover have "qiblaAngle None = 0" by (simp add: qiblaAngle_def)
  ultimately show ?thesis by (simp add: needle_rotation_def)
qed

section \<open>Properties of the adhan trigger\<close>

subsection \<open>One execution of the effect\<close>

lemma adhan_loop_Some:
  assumes "adhan_loop n pt lp ps = Some (d, p)"
  shows "d = toDateString n \<and> p \<in> set ps
         \<and> map_option minute_of_day (prayer_field pt p) = Some (minute_of_day n)
         \<and> lp \<noteq> Some (d @ ''-'' @ p)"
  using assms
proof (induction ps)
  case Nil
  then show ?case by simp
next
  case (Cons a ps)
  then show ?case
    by (auto simp: Let_def minute_of_day_def split: option.splits if_splits)
qed

lemma adhan_effect_cases:
  obtains (idle) "adhan_effect s t = s"
  | (fired) p where "p \<in> set prayers"
      "obligatory_minute (prayerTimes t) p = Some (minute_of_day (now t))"
      "lastAdhanPlayed s \<noteq> Some (toDateString (now t) @ ''-'' @ p)"
      "adhan_effect s t = s\<lparr>lastAdhanPlayed := Some (toDateString (now t) @ ''-'' @ p),
                              played := played s @ [(toDateString (now t), p)]\<rparr>"
proof (cases "adhan_effect s t = s")
  case True
  then show ?thesis by (rule idle)
next
  case False
  then obtain pt d p where pt: "prayerTimes t = Some pt"
    and l: "adhan_loop (now t) pt (lastAdhanPlayed s) prayers = Some (d, p)"
    by (auto simp: adhan_effect_def split: if_splits option.splits)
  from adhan_loop_Some [OF l] have d: "d = toDateString (now t)" and p: "p \<in> set prayers"
    and m: "map_option minute_of_day (prayer_field pt p) = Some (minute_of_day (now t))"
    and k: "lastAdhanPlayed s \<noteq> Some (d @ ''-'' @ p)"
    by blast+
  have e: "adhan_effect s t =
      s\<lparr>lastAdhanPlayed := Some (d @ ''-'' @ p), played := played s @ [(d, p)]\<rparr>"
    using False pt l by (simp add: adhan_effect_def split: if_splits)
  show ?thesis
    using p m k e unfolding d
    by (intro fired [of p]) (simp_all add: obligatory_minute_def pt)
qed

subsection \<open>The invariant of a steady run\<close>

lemma settledD:
  assumes "settled s ts" "(d, p) \<in> set (played s)"
  shows "settled_pair s ts d p"
  using assms unfolding settled_def by force

lemma settled_pair_minute:
  assumes "settled_pair s ts d p" "u \<in> set ts" "toDateString (now u) = d"
    "obligatory_minute (prayerTimes u) p = Some m"
  shows "m \<le> minute_of_day (now u)"
    "m = minute_of_day (now u) \<Longrightarrow> lastAdhanPlayed s = Some (d @ ''-'' @ p)"
  using assms unfolding settled_pair_def by blast+

lemma settled_pair_group:
  assumes "settled_pair s (t # ts) d p" "u \<in> set (t # ts)" "toDateString (now u) = d"
  shows "toDateString (now t) = d"
proof -
  from assms(1) have "toDateString (now t) = d
      \<or> d \<notin> set (map (\<lambda>u. toDateString (now u)) (t # ts))"
    unfolding settled_pair_def by simp
  moreover from assms(2,3) have "d \<in> set (map (\<lambda>u. toDateString (now u)) (t # ts))"
    by (simp only: set_map) (rule image_eqI [of _ _ u], simp_all)
  ultimately show ?thesis by blast
qed

lemma settled_pair_tail:
  assumes st: "steady (t # ts)" and sp: "settled_pair s (t # ts) d p"
  shows "settled_pair s ts d p"
proof -
  have g: "case ts of [] \<Rightarrow> True
      | u # _ \<Rightarrow> toDateString (now u) = d \<or> d \<notin> set (map (\<lambda>u. toDateString (now u)) ts)"
  proof (cases ts)
    case Nil
    then show ?thesis by simp
  next
    case (Cons u us)
    from sp have "toDateString (now t) = d
        \<or> d \<notin> set (map (\<lambda>u. toDateString (now u)) (t # ts))"
      unfolding settled_pair_def by simp
    moreover from st Cons have "toDateString (now u) = toDateString (now t)
        \<or> toDateString (now t) \<notin> set (map (\<lambda>u. toDateString (now u)) ts)"
      by simp
    ultimately show ?thesis using Cons by auto
  qed
  from sp have "\<forall>u \<in> set ts. toDateString (now u) = d \<longrightarrow>
      (\<forall>m. obligatory_minute (prayerTimes u) p = Some m \<longrightarrow>
         m \<le> minute_of_day (now u)
         \<and> (m = minute_of_day (now u) \<longrightarrow> lastAdhanPlayed s = Some (d @ ''-'' @ p)))"
    unfolding settled_pair_def by simp
  with g show ?thesis unfolding settled_pair_def by simp
qed

lemma settled_tail:
  assumes st: "steady (t # ts)" and se: "settled s (t # ts)"
  shows "settled s ts"
  unfolding settled_def
proof (intro conjI ballI)
  from se show "distinct (played s)" by (simp add: settled_def)
next
  fix x assume "x \<in> set (played s)"
  with se have "settled_pair s (t # ts) (fst x) (snd x)" by (simp add: settled_def)
  with st show "settled_pair s ts (fst x) (snd x)" by (rule settled_pair_tail)
qed

lemma obligatory_minute_prayers: "obligatory_minute pto q = Some m \<Longrightarrow> q \<in> set prayers"
  by (auto simp: obligatory_minute_def split: option.splits if_splits)

lemma steady_same_date:
  assumes "steady (t # ts)" "u \<in> set ts" "toDateString (now u) = toDateString (now t)"
  shows "minute_of_day (now t) \<le> minute_of_day (now u)" "same_schedule t u"
  using assms by simp_all

lemma same_scheduleD:
  assumes "same_schedule t u" "obligatory_minute (prayerTimes t) p = Some a"
    "obligatory_minute (prayerTimes u) q = Some b" "r \<in> set prayers"
  shows "obligatory_minute (prayerTimes u) r = obligatory_minute (prayerTimes t) r"
proof -
  from assms(2) obtain x where "prayerTimes t = Some x"
    by (auto simp: obligatory_minute_def split: option.splits)
  moreover from assms(3) obtain y where "prayerTimes u = Some y"
    by (auto simp: obligatory_minute_def split: option.splits)
  ultimately have "\<forall>p \<in> set prayers.
      obligatory_minute (prayerTimes u) p = obligatory_minute (prayerTimes t) p"
    using assms(1) by (simp add: same_schedule_def)
  with assms(4) show ?thesis by simp
qed

lemma distinct_minutesD:
  assumes "distinct_minutes pto" "p \<in> set prayers" "q \<in> set prayers"
    "obligatory_minute pto p = Some m" "obligatory_minute pto q = Some m"
  shows "p = q"
proof -
  from assms(4,5) have "obligatory_minute pto p \<noteq> None \<and> obligatory_minute pto p = obligatory_minute pto q"
    by simp
  with assms(1,2,3) show ?thesis unfolding distinct_minutes_def by blast
qed

lemma settled_fired:
  assumes st: "steady (t # ts)" and se: "settled s (t # ts)"
    and p: "p \<in> set prayers"
    and m: "obligatory_minute (prayerTimes t) p = Some (minute_of_day (now t))"
    and k: "lastAdhanPlayed s \<noteq> Some (toDateString (now t) @ ''-'' @ p)"
  shows "settled (s\<lparr>lastAdhanPlayed := Some (toDateString (now t) @ ''-'' @ p),
                     played := played s @ [(toDateString (now t), p)]\<rparr>) ts"
proof -
  let ?D = "toDateString (now t)"
  let ?s' = "s\<lparr>lastAdhanPlayed := Some (?D @ ''-'' @ p), played := played s @ [(?D, p)]\<rparr>"
  have fresh: "(?D, p) \<notin> set (played s)"
  proof
    assume "(?D, p) \<in> set (played s)"
    with se have "settled_pair s (t # ts) ?D p" by (rule settledD)
    then have "lastAdhanPlayed s = Some (?D @ ''-'' @ p)"
      by (rule settled_pair_minute(2) [where u = t and m = "minute_of_day (now t)"])
        (simp_all add: m)
    with k show False by simp
  qed
  have new: "settled_pair ?s' ts ?D p"
  proof -
    have "case ts of [] \<Rightarrow> True
        | u # _ \<Rightarrow> toDateString (now u) = ?D \<or> ?D \<notin> set (map (\<lambda>u. toDateString (now u)) ts)"
      using st by (cases ts) simp_all
    moreover have "m0 \<le> minute_of_day (now u)
          \<and> (m0 = minute_of_day (now u) \<longrightarrow> lastAdhanPlayed ?s' = Some (?D @ ''-'' @ p))"
      if "u \<in> set ts" "toDateString (now u) = ?D"
        and m0: "obligatory_minute (prayerTimes u) p = Some m0" for u m0
    proof -
      from steady_same_date [OF st that(1,2)]
      have le: "minute_of_day (now t) \<le> minute_of_day (now u)" and ss: "same_schedule t u" .
      from same_scheduleD [OF ss m m0 p] m m0 have "m0 = minute_of_day (now t)" by simp
      with le show ?thesis by simp
    qed
    ultimately show ?thesis unfolding settled_pair_def by blast
  qed
  have old: "settled_pair ?s' ts d q" if dq: "(d, q) \<in> set (played s)" for d q
  proof -
    from se dq have sp: "settled_pair s (t # ts) d q" by (rule settledD)
    with st have sp': "settled_pair s ts d q" by (rule settled_pair_tail)
    have "m' \<le> minute_of_day (now u)
          \<and> (m' = minute_of_day (now u) \<longrightarrow> lastAdhanPlayed ?s' = Some (d @ ''-'' @ q))"
      if u: "u \<in> set ts" and du: "toDateString (now u) = d"
        and m': "obligatory_minute (prayerTimes u) q = Some m'" for u m'
    proof -
      from sp' u du m' have b: "m' \<le> minute_of_day (now u)" by (rule settled_pair_minute(1))
      have "d = ?D \<and> q = p" if eq: "m' = minute_of_day (now u)"
      proof -
        from u have "u \<in> set (t # ts)" by simp
        with sp have d: "?D = d" using du by (rule settled_pair_group)
        have q: "q \<in> set prayers" using m' by (rule obligatory_minute_prayers)
        from du d have "toDateString (now u) = ?D" by simp
        from steady_same_date [OF st u this]
        have le: "minute_of_day (now t) \<le> minute_of_day (now u)" and ss: "same_schedule t u" .
        from same_scheduleD [OF ss m m' q] m'
        have mt: "obligatory_minute (prayerTimes t) q = Some m'" by simp
        have "m' \<le> minute_of_day (now t)"
          by (rule settled_pair_minute(1) [OF sp _ d mt]) simp
        with eq le have "m' = minute_of_day (now t)" by simp
        with mt have "obligatory_minute (prayerTimes t) q = Some (minute_of_day (now t))"
          by simp
        moreover from st have "distinct_minutes (prayerTimes t)" by simp
        ultimately have "p = q" using p q m by (intro distinct_minutesD)
        with d show ?thesis by simp
      qed
      with b show ?thesis by auto
    qed
    moreover from sp' have "case ts of [] \<Rightarrow> True
        | u # _ \<Rightarrow> toDateString (now u) = d \<or> d \<notin> set (map (\<lambda>u. toDateString (now u)) ts)"
      unfolding settled_pair_def by simp
    ultimately show ?thesis unfolding settled_pair_def by blast
  qed
  show ?thesis
    unfolding settled_def
  proof (intro conjI ballI)
    from se fresh show "distinct (played ?s')" by (simp add: settled_def)
  next
    fix x assume x: "x \<in> set (played ?s')"
    show "settled_pair ?s' ts (fst x) (snd x)"
    proof (cases "x \<in> set (played s)")
      case True
      then have "(fst x, snd x) \<in> set (played s)" by simp
      then show ?thesis by (rule old)
    next
      case False
      with x have "x = (?D, p)" by simp
      with new show ?thesis by simp
    qed
  qed
qed

lemma settled_step:
  assumes "steady (t # ts)" "settled s (t # ts)"
  shows "settled (adhan_effect s t) ts"
proof (cases rule: adhan_effect_cases [of s t])
  case idle
  moreover from assms have "settled s ts" by (rule settled_tail)
  ultimately show ?thesis by simp
next
  case (fired p)
  then show ?thesis using settled_fired [OF assms] by simp
qed

lemma settled_run:
  "steady ts \<Longrightarrow> settled s ts \<Longrightarrow> distinct (played (run s ts))"
proof (induction ts arbitrary: s)
  case Nil
  then show ?case by (simp add: settled_def)
next
  case (Cons t ts)
  from Cons.prems have "settled (adhan_effect s t) ts" by (rule settled_step)
  moreover from Cons.prems(1) have "steady ts" by simp
  ultimately show ?case using Cons.IH by simp
qed

lemma adhan_effect_obligatory:
  assumes "\<forall>x \<in> set (played s). snd x \<in> set prayers"
  shows "\<forall>x \<in> set (played (adhan_effect s t)). snd x \<in> set prayers"
proof (cases rule: adhan_effect_cases [of s t])
  case idle
  then show ?thesis using assms by simp
next
  case (fired p)
  then show ?thesis using assms by simp
qed

lemma run_obligatory:
  "\<forall>x \<in> set (played s). snd x \<in> set prayers
    \<Longrightarrow> \<forall>x \<in> set (played (run s ts)). snd x \<in> set prayers"
proof (induction ts arbitrary: s)
  case Nil
  then show ?case by simp
next
  case (Cons t ts)
  from Cons.prems have "\<forall>x \<in> set (played (adhan_effect s t)). snd x \<in> set prayers"
    by (rule adhan_effect_obligatory)
  then show ?case using Cons.IH by simp
qed

subsection \<open>What holds of every run\<close>

text \<open>The instant of sunrise is never compared: changing it changes nothing.\<close>

lemma prayer_field_sunrise_update:
  "p \<noteq> ''sunrise'' \<Longrightarrow> prayer_field (pt\<lparr>sunrise := x\<rparr>) p = prayer_field pt p"
  by (simp add: prayer_field_def)

lemma adhan_loop_ignores_sunrise:
  "''sunrise'' \<notin> set ps \<Longrightarrow> adhan_loop n (pt\<lparr>sunrise := x\<rparr>) lp ps = adhan_loop n pt lp ps"
proof (induction ps)
  case Nil
  then show ?case by simp
next
  case (Cons p ps)
  then have "prayer_field (pt\<lparr>sunrise := x\<rparr>) p = prayer_field pt p"
    by (intro prayer_field_sunrise_update) auto
  with Cons show ?case by (simp split: option.splits)
qed

lemma adhan_effect_ignores_sunrise:
  "adhan_effect s (t\<lparr>prayerTimes := Some (pt\<lparr>sunrise := x\<rparr>)\<rparr>)
     = adhan_effect s (t\<lparr>prayerTimes := Some pt\<rparr>)"
proof -
  have "''sunrise'' \<notin> set prayers" by (simp add: prayers_def)
  then show ?thesis by (simp add: adhan_effect_def adhan_loop_ignores_sunrise)
qed

text \<open>
  Only the most recent key is remembered, so what holds of every run is that the same pair
  is never played twice in succession.
\<close>

lemma adhan_effect_linked:
  assumes "distinct_adj (played s)"
    and "played s \<noteq> [] \<Longrightarrow>
      lastAdhanPlayed s = Some (fst (last (played s)) @ ''-'' @ snd (last (played s)))"
  shows "distinct_adj (played (adhan_effect s t))
    \<and> (played (adhan_effect s t) \<noteq> [] \<longrightarrow>
        lastAdhanPlayed (adhan_effect s t)
          = Some (fst (last (played (adhan_effect s t))) @ ''-''
                  @ snd (last (played (adhan_effect s t)))))"
proof (cases rule: adhan_effect_cases [of s t])
  case idle
  then show ?thesis using assms by simp
next
  case (fired p)
  have "played s = [] \<or> last (played s) \<noteq> (toDateString (now t), p)"
    using assms(2) fired(3) by (cases "played s = []") auto
  with assms(1) have "distinct_adj (played s @ [(toDateString (now t), p)])"
    by (auto simp: distinct_adj_append_iff)
  then show ?thesis by (simp add: fired(4))
qed

lemma run_linked:
  assumes "distinct_adj (played s)"
    and "played s \<noteq> [] \<Longrightarrow>
      lastAdhanPlayed s = Some (fst (last (played s)) @ ''-'' @ snd (last (played s)))"
  shows "distinct_adj (played (run s ts))"
  using assms
proof (induction ts arbitrary: s)
  case Nil
  then show ?case by simp
next
  case (Cons t ts)
  from adhan_effect_linked [OF Cons.prems, of t] show ?case
    by (simp add: Cons.IH)
qed

lemma run_never_repeats_last: "distinct_adj (played (run initial_state ts))"
  by (rule run_linked) (simp_all add: initial_state_def)

subsection \<open>Where the remembered key is enough\<close>

text \<open>
  In a steady run the adhan is played at most once per pair of calendar date and prayer
  id, as in \<open>steady_ticks\<close>. Both conditions on the schedule are needed: the two runs of
  the next subsection each break one of them and nothing else.
\<close>

lemma steady_run_plays_once:
  assumes "steady ts"
  shows "distinct (played (run initial_state ts))
       \<and> (\<forall>x \<in> set (played (run initial_state ts)).
             snd x \<in> {''fajr'', ''dhuhr'', ''asr'', ''maghrib'', ''isha''})"
proof -
  have "settled initial_state ts" by (simp add: settled_def initial_state_def)
  with assms have "distinct (played (run initial_state ts))" by (rule settled_run)
  moreover have "\<forall>x \<in> set (played (run initial_state ts)). snd x \<in> set prayers"
    by (rule run_obligatory) (simp add: initial_state_def)
  ultimately show ?thesis by (simp add: prayers_def)
qed

lemma steady_run_example:
  "steady steady_ticks
   \<and> played (run initial_state steady_ticks)
       = [(''Mon Nov 02 2026'', ''fajr''), (''Mon Nov 02 2026'', ''dhuhr''),
          (''Tue Nov 03 2026'', ''fajr'')]
   \<and> distinct (played (run initial_state steady_ticks))
   \<and> snd ` set (played (run initial_state steady_ticks))
       \<subseteq> {''fajr'', ''dhuhr'', ''asr'', ''maghrib'', ''isha''}"
proof -
  have s: "steady steady_ticks"
    by (simp add: steady_ticks_def tick_at_def home_schedule_def next_schedule_def
        at_time_def monday_def tuesday_def distinct_minutes_def same_schedule_def
        obligatory_minute_def minute_of_day_def prayers_def prayer_field_def)
  have p: "played (run initial_state steady_ticks)
       = [(''Mon Nov 02 2026'', ''fajr''), (''Mon Nov 02 2026'', ''dhuhr''),
          (''Tue Nov 03 2026'', ''fajr'')]"
    by (simp add: steady_ticks_def tick_at_def home_schedule_def next_schedule_def
        at_time_def monday_def tuesday_def initial_state_def adhan_effect_def prayers_def
        prayer_field_def)
  from s p steady_run_plays_once [OF s] show ?thesis by blast
qed

lemma replay_ticks_not_steady:
  "\<not> same_schedule (tick_at home_schedule monday 11 39) (tick_at away_schedule monday 12 5)
   \<and> distinct_minutes (Some home_schedule) \<and> distinct_minutes (Some away_schedule)"
  by (simp add: tick_at_def home_schedule_def away_schedule_def at_time_def monday_def
      tuesday_def distinct_minutes_def same_schedule_def obligatory_minute_def
      minute_of_day_def prayers_def prayer_field_def)

lemma rerun_ticks_not_steady: "\<not> distinct_minutes (Some twilight_schedule)"
proof
  assume "distinct_minutes (Some twilight_schedule)"
  moreover have "''fajr'' \<in> set prayers" "''isha'' \<in> set prayers"
    by (simp_all add: prayers_def)
  moreover have "obligatory_minute (Some twilight_schedule) ''fajr'' = Some 72"
    "obligatory_minute (Some twilight_schedule) ''isha'' = Some 72"
    by (simp_all add: twilight_schedule_def at_time_def obligatory_minute_def
        minute_of_day_def prayers_def prayer_field_def)
  ultimately have "''fajr'' = ''isha''" by (rule distinct_minutesD)
  then show False by simp
qed

subsection \<open>At most once per date and prayer\<close>

text \<open>
  C9. The trigger compares the minute of now against the five obligatory prayer instants
  only (see \<open>adhan_effect_ignores_sunrise\<close> and \<open>run_obligatory\<close>) and is meant to play the
  adhan at most once per pair of calendar date and prayer id: the guard
  \<^verbatim>\<open>lastAdhanPlayed !== todayKey\<close> uses exactly that pair as its key. It remembers the
  most recent key only, and so the code plays a pair again as soon as another pair has been
  played in between and the minute of the first one is the current minute:
  \<^item> in \<open>rerun_ticks\<close>, with schedule, date and clock unchanged, fajr and isha share the
    minute 01:12 and the executions within that minute play fajr, isha, fajr, isha;
  \<^item> in \<open>replay_ticks\<close> fajr is played at 04:43, dhuhr at 11:39, and, after the change of
    location has moved fajr to 12:05, fajr again on the same date.
\<close>

theorem adhan_pair_played_twice:
  "played (run initial_state rerun_ticks)
     = [(''Sun Jun 21 2026'', ''fajr''), (''Sun Jun 21 2026'', ''isha''),
        (''Sun Jun 21 2026'', ''fajr''), (''Sun Jun 21 2026'', ''isha'')]
   \<and> \<not> distinct (played (run initial_state rerun_ticks))
   \<and> played (run initial_state replay_ticks)
     = [(''Mon Nov 02 2026'', ''fajr''), (''Mon Nov 02 2026'', ''dhuhr''),
        (''Mon Nov 02 2026'', ''fajr'')]
   \<and> \<not> distinct (played (run initial_state replay_ticks))"
proof -
  have a: "played (run initial_state rerun_ticks)
     = [(''Sun Jun 21 2026'', ''fajr''), (''Sun Jun 21 2026'', ''isha''),
        (''Sun Jun 21 2026'', ''fajr''), (''Sun Jun 21 2026'', ''isha'')]"
    by (simp add: rerun_ticks_def tick_at_def twilight_schedule_def at_time_def
        midsummer_def initial_state_def adhan_effect_def prayers_def prayer_field_def)
  have b: "played (run initial_state replay_ticks)
     = [(''Mon Nov 02 2026'', ''fajr''), (''Mon Nov 02 2026'', ''dhuhr''),
        (''Mon Nov 02 2026'', ''fajr'')]"
    by (simp add: replay_ticks_def tick_at_def home_schedule_def away_schedule_def
        at_time_def monday_def tuesday_def initial_state_def adhan_effect_def prayers_def
        prayer_field_def)
  have "\<not> distinct (played (run initial_state rerun_ticks))" unfolding a by simp
  moreover have "\<not> distinct (played (run initial_state replay_ticks))" unfolding b by simp
  ultimately show ?thesis using a b by simp
qed

end
